theory Spec2Isabelle
  imports Complex_Main "HOL-Library.Word"
begin

section \<open>Strings and exceptions\<close>

text \<open>
  A JavaScript string is a sequence of UTF-16 code units. The program's literals are all
  ASCII and are written through \<open>js\<close>.
\<close>

type_synonym cu = "16 word"
type_synonym jstr = "cu list"

definition js :: "string \<Rightarrow> jstr" where
  "js s = map of_char s"

definition cc :: "char \<Rightarrow> cu" where
  "cc c = of_char c"

text \<open>
  An exception value carries its constructor name and its \<open>message\<close> property. A
  computation that may throw (or an awaited promise that may reject) returns
  \<open>Inl\<close> of the exception or \<open>Inr\<close> of its value.
\<close>

datatype js_error = Error (ename: string) (message: jstr)

definition andThen :: "js_error + 'a \<Rightarrow> ('a \<Rightarrow> js_error + 'b) \<Rightarrow> js_error + 'b" where
  "andThen m f = (case m of Inl e \<Rightarrow> Inl e | Inr v \<Rightarrow> f v)"

definition try_catch :: "js_error + 'a \<Rightarrow> (js_error \<Rightarrow> js_error + 'a) \<Rightarrow> js_error + 'a" where
  "try_catch body handler = (case body of Inl e \<Rightarrow> handler e | Inr v \<Rightarrow> Inr v)"

section \<open>String operations\<close>

definition is_digit :: "cu \<Rightarrow> bool" where
  "is_digit c = (0x30 \<le> c \<and> c \<le> 0x39)"

text \<open>
  WhiteSpace and LineTerminator of ECMAScript: what \<open>\s\<close> matches and what
  \<open>String.prototype.trim\<close> removes.
\<close>

definition is_space :: "cu \<Rightarrow> bool" where
  "is_space c = (c \<in> {0x09, 0x0A, 0x0B, 0x0C, 0x0D, 0x20, 0xA0, 0x1680, 0x2028, 0x2029,
                        0x202F, 0x205F, 0x3000, 0xFEFF} \<or> (0x2000 \<le> c \<and> c \<le> 0x200A))"

definition trim :: "jstr \<Rightarrow> jstr" where
  "trim s = rev (dropWhile is_space (rev (dropWhile is_space s)))"

definition startsWith :: "jstr \<Rightarrow> jstr \<Rightarrow> bool" where
  "startsWith s p = (take (length p) s = p)"

text \<open>\<open>s.includes(p)\<close>: \<open>p\<close> occurs in \<open>s\<close> at some position.\<close>

fun js_includes :: "jstr \<Rightarrow> jstr \<Rightarrow> bool" where
  "js_includes [] p = (p = [])"
| "js_includes (x # xs) p = (startsWith (x # xs) p \<or> js_includes xs p)"

text \<open>
  \<open>s.split(sep)\<close> for a non-empty separator string: the pieces between the
  occurrences of \<open>sep\<close>, scanned left to right; always at least one piece.
\<close>

fun split_from :: "cu \<Rightarrow> jstr \<Rightarrow> jstr \<Rightarrow> jstr \<Rightarrow> jstr list" where
  "split_from c cs cur [] = [rev cur]"
| "split_from c cs cur (x # xs) =
     (if startsWith (x # xs) (c # cs) then rev cur # split_from c cs [] (drop (length cs) xs)
      else split_from c cs (x # cur) xs)"

fun split :: "jstr \<Rightarrow> jstr \<Rightarrow> jstr list" where
  "split s (c # cs) = split_from c cs [] s"
| "split s [] = map (\<lambda>x. [x]) s"

section \<open>Regular expressions\<close>

text \<open>
  The fragment of ECMAScript regular expressions that the program uses, with the
  backtracking semantics of the language: a matcher returns every way to match at the
  current position, in the order in which backtracking tries them. \<open>Any\<close> is the dot
  under the dotAll flag (the program has no dot without it), \<open>Set True\<close> a negated
  class, \<open>Bol\<close> and \<open>Eol\<close> the two anchors without the multiline flag, \<open>Star\<close> and
  \<open>LazyStar\<close> the greedy and the lazy repetition; an iteration of a repetition that
  consumes nothing is rejected. A group keeps its last capture.
\<close>

datatype item = Ch cu | Rng cu cu | Digit | NonDigit | Space | NonSpace

datatype re =
    Chr cu
  | Eps
  | Any
  | Set bool "item list"
  | Bol
  | Eol
  | Seq re re
  | Alt re re
  | Opt re
  | Star re
  | LazyStar re
  | Grp nat re

abbreviation Plus :: "re \<Rightarrow> re" where
  "Plus r \<equiv> Seq r (Star r)"

text \<open>A sequence of terms, and a literal ASCII string as the sequence of its characters.\<close>

fun cat :: "re list \<Rightarrow> re" where
  "cat [] = Eps"
| "cat [r] = r"
| "cat (r # rs) = Seq r (cat rs)"

definition lit :: "string \<Rightarrow> re" where
  "lit s = cat (map (\<lambda>c. Chr (cc c)) s)"

text \<open>
  Canonicalize of the language without the unicode flag, on ASCII: with \<open>ignoreCase\<close> a
  lower-case letter is compared as its upper-case letter. A code unit from 128 on never
  canonicalizes to an ASCII one, and every pattern of the program is ASCII.
\<close>

definition canon :: "bool \<Rightarrow> cu \<Rightarrow> cu" where
  "canon ic c = (if ic \<and> 0x61 \<le> c \<and> c \<le> 0x7A then c - 0x20 else c)"

definition swapcase :: "cu \<Rightarrow> cu" where
  "swapcase c = (if 0x61 \<le> c \<and> c \<le> 0x7A then c - 0x20
                 else if 0x41 \<le> c \<and> c \<le> 0x5A then c + 0x20 else c)"

fun item_has :: "bool \<Rightarrow> item \<Rightarrow> cu \<Rightarrow> bool" where
  "item_has ic (Ch c) x = (canon ic x = canon ic c)"
| "item_has ic (Rng a b) x = ((a \<le> x \<and> x \<le> b) \<or> (ic \<and> a \<le> swapcase x \<and> swapcase x \<le> b))"
| "item_has ic Digit x = is_digit x"
| "item_has ic NonDigit x = (\<not> is_digit x)"
| "item_has ic Space x = is_space x"
| "item_has ic NonSpace x = (\<not> is_space x)"

definition in_set :: "bool \<Rightarrow> bool \<Rightarrow> item list \<Rightarrow> cu \<Rightarrow> bool" where
  "in_set ic neg its x = ((\<exists>i \<in> set its. item_has ic i x) \<noteq> neg)"

text \<open>
  A matcher state: the index reached in the input, the input from there on, and the
  captures so far (the newest first).
\<close>

type_synonym mstate = "nat \<times> jstr \<times> (nat \<times> jstr) list"

fun one :: "(cu \<Rightarrow> bool) \<Rightarrow> mstate \<Rightarrow> mstate list" where
  "one p (k, [], cs) = []"
| "one p (k, x # xs, cs) = (if p x then [(Suc k, xs, cs)] else [])"

definition remaining :: "mstate \<Rightarrow> nat" where
  "remaining st = length (fst (snd st))"

function (sequential) ms :: "bool \<Rightarrow> re \<Rightarrow> mstate \<Rightarrow> mstate list" where
  "ms ic (Chr c) st = one (\<lambda>x. canon ic x = canon ic c) st"
| "ms ic Eps st = [st]"
| "ms ic Any st = one (\<lambda>x. True) st"
| "ms ic (Set neg its) st = one (in_set ic neg its) st"
| "ms ic Bol st = (if fst st = 0 then [st] else [])"
| "ms ic Eol st = (if fst (snd st) = [] then [st] else [])"
| "ms ic (Seq r1 r2) st = concat (map (ms ic r2) (ms ic r1 st))"
| "ms ic (Alt r1 r2) st = ms ic r1 st @ ms ic r2 st"
| "ms ic (Opt r) st = ms ic r st @ [st]"
| "ms ic (Star r) st =
     concat (map (\<lambda>st'. if remaining st' < remaining st then ms ic (Star r) st' else [])
                 (ms ic r st)) @ [st]"
| "ms ic (LazyStar r) st =
     st # concat (map (\<lambda>st'. if remaining st' < remaining st then ms ic (LazyStar r) st' else [])
                      (ms ic r st))"
| "ms ic (Grp n r) st =
     map (\<lambda>st'. (fst st', fst (snd st'), (n, take (fst st' - fst st) (fst (snd st))) # snd (snd st')))
         (ms ic r st)"
  by pat_completeness auto
termination
  by (relation "measures [\<lambda>(ic, r, st). size r, \<lambda>(ic, r, st). remaining st]") auto

text \<open>
  \<open>RegExp.prototype.exec\<close> from index 0: the first start index at which the pattern
  matches, with the match that backtracking finds first there. The result is the start
  index and the state after the match.
\<close>

fun exec_from :: "bool \<Rightarrow> re \<Rightarrow> nat \<Rightarrow> jstr \<Rightarrow> (nat \<times> mstate) option" where
  "exec_from ic r k [] = (case ms ic r (k, [], []) of [] \<Rightarrow> None | m # _ \<Rightarrow> Some (k, m))"
| "exec_from ic r k (x # xs) =
     (case ms ic r (k, x # xs, []) of [] \<Rightarrow> exec_from ic r (Suc k) xs | m # _ \<Rightarrow> Some (k, m))"

text \<open>\<open>s.match(re)\<close> for a pattern without the global flag; \<open>None\<close> is \<open>null\<close>.\<close>

definition js_match :: "bool \<Rightarrow> re \<Rightarrow> jstr \<Rightarrow> (nat \<times> mstate) option" where
  "js_match ic r s = exec_from ic r 0 s"

text \<open>\<open>m[n]\<close> of a match: the last capture of group \<open>n\<close>; \<open>None\<close> is \<open>undefined\<close>.\<close>

definition group :: "nat \<times> mstate \<Rightarrow> nat \<Rightarrow> jstr option" where
  "group m n = map_of (snd (snd (snd m))) n"

definition test :: "bool \<Rightarrow> re \<Rightarrow> jstr \<Rightarrow> bool" where
  "test ic r s = (exec_from ic r 0 s \<noteq> None)"

text \<open>
  \<open>s.replace(re, repl)\<close> where \<open>repl\<close> has no \<open>$\<close> pattern (the program replaces by
  \<open>""\<close> and \<open>"+"\<close> only): without the global flag the first match is replaced, with it
  every match, the search resuming where the last match ended, one code unit further
  after an empty match.
\<close>

fun replace_first_from :: "bool \<Rightarrow> re \<Rightarrow> jstr \<Rightarrow> nat \<Rightarrow> jstr \<Rightarrow> jstr" where
  "replace_first_from ic r repl k [] = (case ms ic r (k, [], []) of [] \<Rightarrow> [] | m # _ \<Rightarrow> repl)"
| "replace_first_from ic r repl k (x # xs) =
     (case ms ic r (k, x # xs, []) of
        [] \<Rightarrow> x # replace_first_from ic r repl (Suc k) xs
      | m # _ \<Rightarrow> repl @ fst (snd m))"

definition replace_first :: "bool \<Rightarrow> re \<Rightarrow> jstr \<Rightarrow> jstr \<Rightarrow> jstr" where
  "replace_first ic r s repl = replace_first_from ic r repl 0 s"

function replace_all_from :: "bool \<Rightarrow> re \<Rightarrow> jstr \<Rightarrow> nat \<Rightarrow> jstr \<Rightarrow> jstr" where
  "replace_all_from ic r repl k [] = (case ms ic r (k, [], []) of [] \<Rightarrow> [] | m # _ \<Rightarrow> repl)"
| "replace_all_from ic r repl k (x # xs) =
     (case ms ic r (k, x # xs, []) of
        [] \<Rightarrow> x # replace_all_from ic r repl (Suc k) xs
      | m # _ \<Rightarrow>
          (if remaining m < length (x # xs)
           then repl @ replace_all_from ic r repl (fst m) (fst (snd m))
           else repl @ x # replace_all_from ic r repl (Suc k) xs))"
  by pat_completeness auto
termination
  by (relation "measure (\<lambda>(ic, r, repl, k, s). length s)") (auto simp: remaining_def)

definition replace_all :: "bool \<Rightarrow> re \<Rightarrow> jstr \<Rightarrow> jstr \<Rightarrow> jstr" where
  "replace_all ic r s repl = replace_all_from ic r repl 0 s"

section \<open>Utilities\<close>

text \<open>
  \<open>encodeURIComponent\<close>: an unreserved character stays, any other code point is
  written as the percent-escapes of its UTF-8 bytes, and a surrogate code unit that is
  not part of a pair throws a \<open>URIError\<close>.
\<close>

definition URIError :: js_error where
  "URIError = Error ''URIError'' (js ''URI malformed'')"

definition uriUnreserved :: "cu \<Rightarrow> bool" where
  "uriUnreserved c = ((0x41 \<le> c \<and> c \<le> 0x5A) \<or> (0x61 \<le> c \<and> c \<le> 0x7A) \<or> (0x30 \<le> c \<and> c \<le> 0x39)
      \<or> c \<in> {0x2D, 0x5F, 0x2E, 0x21, 0x7E, 0x2A, 0x27, 0x28, 0x29})"

definition is_lead :: "cu \<Rightarrow> bool" where
  "is_lead c = (0xD800 \<le> c \<and> c \<le> 0xDBFF)"

definition is_trail :: "cu \<Rightarrow> bool" where
  "is_trail c = (0xDC00 \<le> c \<and> c \<le> 0xDFFF)"

definition code_point :: "cu \<Rightarrow> cu \<Rightarrow> nat" where
  "code_point c d = (unat c - 0xD800) * 0x400 + (unat d - 0xDC00) + 0x10000"

definition utf8 :: "nat \<Rightarrow> nat list" where
  "utf8 cp =
     (if cp < 0x80 then [cp]
      else if cp < 0x800 then [0xC0 + cp div 64, 0x80 + cp mod 64]
      else if cp < 0x10000 then [0xE0 + cp div 4096, 0x80 + cp div 64 mod 64, 0x80 + cp mod 64]
      else [0xF0 + cp div 262144, 0x80 + cp div 4096 mod 64, 0x80 + cp div 64 mod 64,
            0x80 + cp mod 64])"

definition hexdigit :: "nat \<Rightarrow> cu" where
  "hexdigit d = (if d < 10 then 0x30 + of_nat d else 0x37 + of_nat d)"

definition percent :: "nat \<Rightarrow> jstr" where
  "percent b = [0x25, hexdigit (b div 16), hexdigit (b mod 16)]"

definition escape :: "nat \<Rightarrow> jstr" where
  "escape cp = concat (map percent (utf8 cp))"

fun encodeURIComponent :: "jstr \<Rightarrow> js_error + jstr" where
  "encodeURIComponent [] = Inr []"
| "encodeURIComponent (c # cs) =
     (if uriUnreserved c then andThen (encodeURIComponent cs) (\<lambda>r. Inr (c # r))
      else if is_lead c then
        (case cs of
           [] \<Rightarrow> Inl URIError
         | d # ds \<Rightarrow>
             if is_trail d
             then andThen (encodeURIComponent ds) (\<lambda>r. Inr (escape (code_point c d) @ r))
             else Inl URIError)
      else if is_trail c then Inl URIError
      else andThen (encodeURIComponent cs) (\<lambda>r. Inr (escape (unat c) @ r)))"

definition safeEncode :: "jstr \<Rightarrow> js_error + jstr" where
  "safeEncode s = encodeURIComponent s"

text \<open>
  The network is a parameter: \<open>fetch\<close> maps a URL and the request headers to a thrown
  error or a response. A response has its status, and the outcomes of \<open>res.text()\<close> and
  \<open>res.json()\<close>; numbers of a JSON value are left abstract.
\<close>

datatype 'n json = JNull | JBool bool | JNum 'n | JStr jstr | JArr "'n json list"
  | JObj "(jstr \<times> 'n json) list"

record 'n response =
  status :: nat
  res_text :: "js_error + jstr"
  res_json :: "js_error + 'n json"

definition ok :: "'n response \<Rightarrow> bool" where
  "ok res = (200 \<le> status res \<and> status res \<le> 299)"

type_synonym 'n fetch = "jstr \<Rightarrow> (string \<times> jstr) list \<Rightarrow> js_error + 'n response"

definition fetchText :: "'n fetch \<Rightarrow> jstr \<Rightarrow> (string \<times> jstr) list \<Rightarrow> js_error + jstr" where
  "fetchText fetch u opts = andThen (fetch u opts) (\<lambda>res. res_text res)"

definition fetchJson :: "'n fetch \<Rightarrow> jstr \<Rightarrow> (string \<times> jstr) list \<Rightarrow> js_error + 'n json" where
  "fetchJson fetch u opts = andThen (fetch u opts) (\<lambda>res. res_json res)"

section \<open>DuckDuckGo scraper\<close>

text \<open>A value that may be \<open>null\<close> is an option; \<open>null\<close> and the empty string are falsy.\<close>

definition truthy :: "jstr option \<Rightarrow> bool" where
  "truthy v = (case v of None \<Rightarrow> False | Some s \<Rightarrow> s \<noteq> [])"

definition js_or :: "jstr option \<Rightarrow> jstr option \<Rightarrow> jstr option" where
  "js_or a b = (if truthy a then a else b)"

definition first_match :: "(nat \<times> mstate) option \<Rightarrow> (nat \<times> mstate) option \<Rightarrow> (nat \<times> mstate) option" where
  "first_match a b = (case a of None \<Rightarrow> b | Some m \<Rightarrow> Some m)"

text \<open>
  The patterns of the scraper. The first five are matched with the ignoreCase flag, the
  two title patterns also with dotAll; the last one is replaced globally.
  \<^item> \<open>href_re\<close>: \<open>/<a[^>]*class="[^"]*result__a[^"]*"[^>]*href="([^"]+)"/i\<close>
  \<^item> \<open>href_re_any\<close>: \<open>/<a[^>]*href="([^"]+)"[^>]*>/i\<close>
  \<^item> \<open>title_re\<close>: \<open>/<a[^>]*class="[^"]*result__a[^"]*"[^>]*>(.*?)<\/a>/is\<close>
  \<^item> \<open>title_re_any\<close>: \<open>/<a[^>]*>(.*?)<\/a>/is\<close>
  \<^item> \<open>snippet_re\<close>: \<open>/class="result__snippet"[^>]*>([\s\S]*?)<\/div>/i\<close>
  \<^item> \<open>tag_re\<close>: \<open>/<\/?[^>]+(>|$)/g\<close>
\<close>

definition not_gt :: re where
  \<open>not_gt = Set True [Ch (cc CHR ''>'')]\<close>

definition not_quote :: re where
  \<open>not_quote = Set True [Ch (cc CHR ''"'')]\<close>

definition href_re :: re where
  \<open>href_re = cat [lit ''<a'', Star not_gt, lit ''class="'', Star not_quote, lit ''result__a'',
                   Star not_quote, lit ''"'', Star not_gt, lit ''href="'', Grp 1 (Plus not_quote),
                   lit ''"'']\<close>

definition href_re_any :: re where
  \<open>href_re_any = cat [lit ''<a'', Star not_gt, lit ''href="'', Grp 1 (Plus not_quote), lit ''"'',
                       Star not_gt, lit ''>'']\<close>

definition title_re :: re where
  \<open>title_re = cat [lit ''<a'', Star not_gt, lit ''class="'', Star not_quote, lit ''result__a'',
                    Star not_quote, lit ''"'', Star not_gt, lit ''>'', Grp 1 (LazyStar Any),
                    lit ''</a>'']\<close>

definition title_re_any :: re where
  \<open>title_re_any = cat [lit ''<a'', Star not_gt, lit ''>'', Grp 1 (LazyStar Any), lit ''</a>'']\<close>

definition snippet_re :: re where
  \<open>snippet_re = cat [lit ''class="result__snippet"'', Star not_gt, lit ''>'',
                      Grp 1 (LazyStar (Set False [Space, NonSpace])), lit ''</div>'']\<close>

definition tag_re :: re where
  \<open>tag_re = cat [lit ''<'', Opt (lit ''/''), Plus not_gt, Grp 1 (Alt (lit ''>'') Eol)]\<close>

record search_result =
  title :: "jstr option"
  snippet :: jstr
  link :: "jstr option"

definition TypeError :: js_error where
  "TypeError = Error ''TypeError'' (js ''Cannot read properties of undefined (reading 'replace')'')"

text \<open>\<open>m[1].replace(/<\/?[^>]+(>|$)/g, "").trim()\<close>; a group that is \<open>undefined\<close> throws.\<close>

definition strip_group :: "nat \<times> mstate \<Rightarrow> js_error + jstr" where
  "strip_group m =
     (case group m 1 of None \<Rightarrow> Inl TypeError | Some t \<Rightarrow> Inr (trim (replace_all False tag_re t [])))"

text \<open>
  The body of the loop for one container: the link, the title and the snippet it
  extracts, and the entry it pushes, if any.
\<close>

definition ddg_href :: "jstr \<Rightarrow> jstr option" where
  "ddg_href part =
     (case first_match (js_match True href_re part) (js_match True href_re_any part) of
        None \<Rightarrow> None
      | Some m \<Rightarrow> group m 1)"

definition ddg_title :: "jstr \<Rightarrow> js_error + jstr option" where
  "ddg_title part =
     (case first_match (js_match True title_re part) (js_match True title_re_any part) of
        None \<Rightarrow> Inr None
      | Some m \<Rightarrow> andThen (strip_group m) (\<lambda>t. Inr (Some t)))"

definition ddg_snippet :: "jstr \<Rightarrow> js_error + jstr" where
  "ddg_snippet part =
     (case js_match True snippet_re part of None \<Rightarrow> Inr [] | Some m \<Rightarrow> strip_group m)"

definition ddg_part :: "jstr \<Rightarrow> js_error + search_result option" where
  "ddg_part part =
     (let href = ddg_href part
      in andThen (ddg_title part) (\<lambda>title.
         andThen (ddg_snippet part) (\<lambda>snippet.
         Inr (if truthy href
              then Some \<lparr>title = js_or title href, snippet = snippet, link = href\<rparr>
              else None))))"

text \<open>
  \<open>maxResults\<close> is a number of the language: a finite one, an infinity or \<open>NaN\<close>. A
  finite one is given by its real value (every double is one), and
  \<open>results.length >= maxResults\<close> compares an integer with it; every comparison with
  \<open>NaN\<close> is false.
\<close>

datatype number = Finite real | PosInf | NegInf | NaN

definition length_ge :: "nat \<Rightarrow> number \<Rightarrow> bool" where
  "length_ge n m =
     (case m of Finite x \<Rightarrow> x \<le> real n | PosInf \<Rightarrow> False | NegInf \<Rightarrow> True | NaN \<Rightarrow> False)"

fun ddg_loop :: "number \<Rightarrow> jstr list \<Rightarrow> search_result list \<Rightarrow> js_error + search_result list" where
  "ddg_loop maxResults [] results = Inr results"
| "ddg_loop maxResults (part # parts) results =
     (if length_ge (length results) maxResults then Inr results
      else andThen (ddg_part part) (\<lambda>entry.
             ddg_loop maxResults parts
               (case entry of None \<Rightarrow> results | Some r \<Rightarrow> results @ [r])))"

definition ddg_url :: "jstr \<Rightarrow> jstr" where
  "ddg_url q = js ''https://html.duckduckgo.com/html/?q='' @ q"

definition user_agent :: "(string \<times> jstr) list" where
  "user_agent = [(''User-Agent'', js ''OSINT-Aggregator/1.0'')]"

text \<open>
  The URL is built before the \<open>try\<close>; the fetch and the extraction are inside it, and
  the handler returns the empty list (its log line is not modelled). The caller that
  leaves \<open>maxResults\<close> out gets 6.
\<close>

definition duckDuckGoSearch :: "'n fetch \<Rightarrow> jstr \<Rightarrow> number \<Rightarrow> js_error + search_result list" where
  \<open>duckDuckGoSearch fetch query maxResults =
     andThen (safeEncode query) (\<lambda>q.
       try_catch
         (andThen (fetchText fetch (ddg_url q) user_agent) (\<lambda>text.
            ddg_loop maxResults (drop 1 (split text (js ''<div class="result''))) []))
         (\<lambda>e. Inr []))\<close>

definition duckDuckGoSearch_default :: "'n fetch \<Rightarrow> jstr \<Rightarrow> js_error + search_result list" where
  "duckDuckGoSearch_default fetch query = duckDuckGoSearch fetch query (Finite 6)"

section \<open>IP tools\<close>

definition geo_url :: "jstr \<Rightarrow> jstr" where
  "geo_url ip = js ''http://ip-api.com/json/'' @ ip
     @ js ''?fields=status,message,country,regionName,city,zip,lat,lon,isp,org,query''"

definition geo_fail :: "js_error \<Rightarrow> 'n json" where
  "geo_fail e = JObj [(js ''status'', JStr (js ''fail'')), (js ''message'', JStr (message e))]"

definition ipGeolocation :: "'n fetch \<Rightarrow> jstr \<Rightarrow> js_error + 'n json" where
  "ipGeolocation fetch ip =
     try_catch (andThen (safeEncode ip) (\<lambda>a. fetchJson fetch (geo_url a) []))
               (\<lambda>e. Inr (geo_fail e))"

definition rdap_url :: "jstr \<Rightarrow> jstr \<Rightarrow> jstr" where
  "rdap_url kind name =
     (let prefix = (if kind = js ''ip'' then js ''ip'' else js ''domain'')
      in js ''https://rdap.org/'' @ prefix @ js ''/'' @ name)"

definition rdapLookup :: "'n fetch \<Rightarrow> jstr \<Rightarrow> jstr \<Rightarrow> js_error + 'n json" where
  "rdapLookup fetch kind name =
     try_catch
       (andThen (safeEncode name) (\<lambda>a.
        andThen (fetch (rdap_url kind a) user_agent) (\<lambda>res.
          if \<not> ok res then Inr JNull else res_json res)))
       (\<lambda>e. Inr JNull)"

text \<open>
  A call of the resolver throws at once, or returns a promise that rejects or fulfils.
  \<open>p.catch(() => [])\<close> turns a rejection into the empty list; \<open>await\<close> throws what is left.
\<close>

datatype 'a call = Throws js_error | Rejects js_error | Fulfils 'a

definition catch_empty :: "'r list call \<Rightarrow> 'r list call" where
  "catch_empty c = (case c of Rejects e \<Rightarrow> Fulfils [] | Throws e \<Rightarrow> Throws e | Fulfils v \<Rightarrow> Fulfils v)"

definition await :: "'a call \<Rightarrow> js_error + 'a" where
  "await c = (case c of Throws e \<Rightarrow> Inl e | Rejects e \<Rightarrow> Inl e | Fulfils v \<Rightarrow> Inr v)"

record 'r dns =
  resolve :: "jstr \<Rightarrow> string \<Rightarrow> 'r list call"
  resolveMx :: "jstr \<Rightarrow> 'r list call"
  resolveTxt :: "jstr \<Rightarrow> 'r list call"
  resolveNs :: "jstr \<Rightarrow> 'r list call"
  resolveCname :: "jstr \<Rightarrow> 'r list call"

text \<open>One line of \<open>dnsRecords\<close>: \<open>try { out.K = await c.catch(()=>[]); } catch { out.K = []; }\<close>\<close>

definition assign_or_empty :: "(string \<rightharpoonup> 'r list) \<Rightarrow> string \<Rightarrow> 'r list call \<Rightarrow> (string \<rightharpoonup> 'r list)" where
  "assign_or_empty out k c =
     (case await (catch_empty c) of Inr v \<Rightarrow> out(k \<mapsto> v) | Inl e \<Rightarrow> out(k \<mapsto> []))"

definition dnsRecords :: "'r dns \<Rightarrow> jstr \<Rightarrow> js_error + (string \<rightharpoonup> 'r list)" where
  "dnsRecords dns name =
     (let out = Map.empty;
          out = assign_or_empty out ''A'' (resolve dns name ''A'');
          out = assign_or_empty out ''AAAA'' (resolve dns name ''AAAA'');
          out = assign_or_empty out ''MX'' (resolveMx dns name);
          out = assign_or_empty out ''TXT'' (resolveTxt dns name);
          out = assign_or_empty out ''NS'' (resolveNs dns name);
          out = assign_or_empty out ''CNAME'' (resolveCname dns name)
      in Inr out)"

section \<open>Phone helpers\<close>

record normalized_phone =
  raw :: jstr
  cleaned :: jstr
  digits :: jstr
  e164 :: jstr

text \<open>
  The patterns of the normalizer: \<open>/[^\d+]/g\<close>, \<open>/^(\+)+/\<close> and \<open>/\D/g\<close>. An input is
  a string; the empty string is the falsy one.
\<close>

definition non_digit_plus_re :: re where
  "non_digit_plus_re = Set True [Digit, Ch (cc CHR ''+'')]"

definition lead_plus_re :: re where
  "lead_plus_re = cat [Bol, Plus (Grp 1 (lit ''+''))]"

definition non_digit_re :: re where
  "non_digit_re = Set False [NonDigit]"

definition normalizePhone :: "jstr \<Rightarrow> normalized_phone option" where
  "normalizePhone r =
     (if r = [] then None
      else
        let s = trim r;
            s = replace_all False non_digit_plus_re s [];
            s = replace_first False lead_plus_re s (js ''+'');
            s = (if startsWith s (js ''00'') then js ''+'' @ drop 2 s else s);
            ds = replace_all False non_digit_re s [];
            e = (if startsWith s (js ''+'') then js ''+'' @ ds else ds)
        in Some \<lparr>raw = r, cleaned = s, digits = ds, e164 = e\<rparr>)"

section \<open>Helpers\<close>

text \<open>The pattern of the classifier: \<open>/^[0-9]+\.[0-9]+\.[0-9]+\.[0-9]+$/\<close>.\<close>

definition digit_re :: re where
  "digit_re = Set False [Rng (cc CHR ''0'') (cc CHR ''9'')]"

definition ip_re :: re where
  "ip_re = cat [Bol, Plus digit_re, lit ''.'', Plus digit_re, lit ''.'', Plus digit_re, lit ''.'',
                Plus digit_re, Eol]"

definition looksLikeIP :: "jstr \<Rightarrow> bool" where
  "looksLikeIP q = (test False ip_re q \<or> js_includes q (js '':''))"

section \<open>Outcomes and environments used in the statements\<close>

text \<open>What a key of the DNS record set holds after a call: the records, or none on a failure.\<close>

definition records_or_empty :: "'r list call \<Rightarrow> 'r list" where
  "records_or_empty c = (case c of Fulfils v \<Rightarrow> v | Throws e \<Rightarrow> [] | Rejects e \<Rightarrow> [])"

text \<open>A server that answers every request alike, and a network that is down.\<close>

definition respond :: "nat \<Rightarrow> js_error + jstr \<Rightarrow> js_error + 'n json \<Rightarrow> 'n fetch" where
  "respond st t j = (\<lambda>u opts. Inr \<lparr>status = st, res_text = t, res_json = j\<rparr>)"

definition fetch_failed :: js_error where
  "fetch_failed = Error ''TypeError'' (js ''fetch failed'')"

definition unreachable :: "'n fetch" where
  "unreachable = (\<lambda>u opts. Inl fetch_failed)"

definition bad_json :: js_error where
  "bad_json = Error ''SyntaxError'' (js ''Unexpected end of JSON input'')"

definition no_mx :: "jstr dns" where
  "no_mx = \<lparr>resolve = (\<lambda>n t. Fulfils [js ''93.184.216.34'']),
            resolveMx = (\<lambda>n. Rejects (Error ''Error'' (js ''queryMx ENODATA''))),
            resolveTxt = (\<lambda>n. Fulfils []),
            resolveNs = (\<lambda>n. Fulfils [js ''a.iana-servers.net'']),
            resolveCname = (\<lambda>n. Throws (Error ''TypeError'' (js ''invalid name'')))\<rparr>"

text \<open>A pattern that sets group \<open>n\<close> in every match, by its shape.\<close>

fun binds :: "nat \<Rightarrow> re \<Rightarrow> bool" where
  "binds n (Grp m r) = (n = m \<or> binds n r)"
| "binds n (Seq r1 r2) = (binds n r1 \<or> binds n r2)"
| "binds n (Alt r1 r2) = (binds n r1 \<and> binds n r2)"
| "binds n r = False"

text \<open>
  The containers of a page, and the entries that the loop body pushes for a list of
  containers when nothing stops it.
\<close>

definition containers :: "jstr \<Rightarrow> jstr list" where
  \<open>containers text = drop 1 (split text (js ''<div class="result''))\<close>

definition entries :: "jstr list \<Rightarrow> search_result list" where
  "entries parts =
     concat (map (\<lambda>part. case ddg_part part of Inr (Some r) \<Rightarrow> [r] | _ \<Rightarrow> []) parts)"

text \<open>
  The length at which the loop stops for a bound: the least natural number that is not
  below it, if there is one; and the entries that are left of a list at that length.
\<close>

definition cap :: "number \<Rightarrow> nat option" where
  "cap m =
     (case m of Finite x \<Rightarrow> Some (nat \<lceil>x\<rceil>) | NegInf \<Rightarrow> Some 0 | PosInf \<Rightarrow> None | NaN \<Rightarrow> None)"

definition capped :: "number \<Rightarrow> 'a list \<Rightarrow> 'a list" where
  "capped m xs = (case cap m of Some c \<Rightarrow> take c xs | None \<Rightarrow> xs)"

text \<open>A string without a surrogate code unit outside a pair (\<open>isWellFormed\<close>).\<close>

fun well_formed :: "jstr \<Rightarrow> bool" where
  "well_formed [] = True"
| "well_formed (c # cs) =
     (if is_lead c then (case cs of [] \<Rightarrow> False | d # ds \<Rightarrow> is_trail d \<and> well_formed ds)
      else \<not> is_trail c \<and> well_formed cs)"

text \<open>
  A page with three containers that have an anchor, the last with an empty title, served
  for every request.
\<close>

definition page :: jstr where
  \<open>page = js ''<div class="result"><a class="result__a" href="//a.example/">Alpha</a></div><div class="result"><a href="/b"><b>Beta</b></a></div><div class="result"><a href="c"></a></div>''\<close>

definition server :: "int fetch" where
  "server = respond 200 (Inr page) (Inl bad_json)"

definition result_a :: search_result where
  "result_a = \<lparr>title = Some (js ''Alpha''), snippet = [], link = Some (js ''//a.example/'')\<rparr>"

definition result_b :: search_result where
  "result_b = \<lparr>title = Some (js ''Beta''), snippet = [], link = Some (js ''/b'')\<rparr>"

definition result_c :: search_result where
  "result_c = \<lparr>title = Some (js ''c''), snippet = [], link = Some (js ''c'')\<rparr>"

section \<open>Facts about the matcher\<close>

text \<open>
  The equations of the two repetitions mention themselves under a guard; they are
  unfolded one step at a time.
\<close>

declare ms.simps(10,11) [simp del]

lemma ms_Seq_I:
  "st1 \<in> set (ms ic r1 st) \<Longrightarrow> st2 \<in> set (ms ic r2 st1) \<Longrightarrow> st2 \<in> set (ms ic (Seq r1 r2) st)"
  by auto

lemma ms_Chr_I: "(Suc k, rest, cs) \<in> set (ms ic (Chr c) (k, c # rest, cs))"
  by simp

lemma ms_Eol_I: "(k, [], cs) \<in> set (ms ic Eol (k, [], cs))"
  by simp

lemma ms_Chr_then:
  assumes "st' \<in> set (ms ic r (Suc k, rest, cs))"
  shows "st' \<in> set (ms ic (Seq (Chr c) r) (k, c # rest, cs))"
  by (rule ms_Seq_I[OF ms_Chr_I assms])

lemma ms_Bol_then:
  assumes "st' \<in> set (ms ic r (0, s, cs))"
  shows "st' \<in> set (ms ic (Seq Bol r) (0, s, cs))"
  using assms by simp

lemma exec_from_hit: "ms ic r (k, s, []) \<noteq> [] \<Longrightarrow> exec_from ic r k s \<noteq> None"
  by (cases s) (auto split: list.splits)

section \<open>The type classifier\<close>

lemma js_includes_single: "js_includes q [c] = (c \<in> set q)"
  by (induction q) (auto simp: startsWith_def)

lemma digit_re_one: "is_digit x \<Longrightarrow> ms ic digit_re (k, x # xs, cs) = [(Suc k, xs, cs)]"
  by (simp add: digit_re_def in_set_def is_digit_def cc_def)

lemma ms_Star_digits:
  "\<forall>c \<in> set g. is_digit c \<Longrightarrow>
   (k + length g, rest, cs) \<in> set (ms ic (Star digit_re) (k, g @ rest, cs))"
proof (induction g arbitrary: k)
  case Nil
  show ?case by (subst ms.simps(10)) simp
next
  case (Cons x g)
  have "(Suc k + length g, rest, cs) \<in> set (ms ic (Star digit_re) (Suc k, g @ rest, cs))"
    using Cons.IH[of "Suc k"] Cons.prems by simp
  then show ?case using Cons.prems
    by (subst ms.simps(10)) (simp add: digit_re_one remaining_def)
qed

lemma ms_Plus_digits:
  assumes "g \<noteq> []" "\<forall>c \<in> set g. is_digit c"
  shows "(k + length g, rest, cs) \<in> set (ms ic (Plus digit_re) (k, g @ rest, cs))"
proof -
  obtain x g' where g: "g = x # g'" using assms(1) by (cases g) auto
  have "(Suc k + length g', rest, cs) \<in> set (ms ic (Star digit_re) (Suc k, g' @ rest, cs))"
    using ms_Star_digits[of g' "Suc k" rest cs ic] assms(2) g by simp
  then show ?thesis using assms(2) g by (simp add: digit_re_one)
qed

lemma ms_group_then:
  assumes "g \<noteq> []" "\<forall>c \<in> set g. is_digit c"
    and "st' \<in> set (ms ic r (k + length g, rest, cs))"
  shows "st' \<in> set (ms ic (Seq (Plus digit_re) r) (k, g @ rest, cs))"
  by (rule ms_Seq_I[OF ms_Plus_digits[OF assms(1,2)] assms(3)])

lemma ip_re_unfold:
  "ip_re = Seq Bol (Seq (Plus digit_re) (Seq (Chr (cc CHR ''.'')) (Seq (Plus digit_re)
     (Seq (Chr (cc CHR ''.'')) (Seq (Plus digit_re) (Seq (Chr (cc CHR ''.''))
     (Seq (Plus digit_re) Eol)))))))"
  by (simp add: ip_re_def lit_def)

lemma ip_re_matches_quad:
  assumes "g1 \<noteq> []" "g2 \<noteq> []" "g3 \<noteq> []" "g4 \<noteq> []"
    and "\<forall>c \<in> set g1. is_digit c" "\<forall>c \<in> set g2. is_digit c"
    and "\<forall>c \<in> set g3. is_digit c" "\<forall>c \<in> set g4. is_digit c"
  shows "ms False ip_re
           (0, g1 @ cc CHR ''.'' # g2 @ cc CHR ''.'' # g3 @ cc CHR ''.'' # g4 @ [], []) \<noteq> []"
proof -
  have "(Suc (Suc (Suc (0 + length g1) + length g2) + length g3) + length g4, [], [])
     \<in> set (ms False ip_re
              (0, g1 @ cc CHR ''.'' # g2 @ cc CHR ''.'' # g3 @ cc CHR ''.'' # g4 @ [], []))"
    unfolding ip_re_unfold
    by (intro ms_Bol_then ms_group_then ms_Chr_then ms_Eol_I assms)
  then show ?thesis by (metis empty_iff empty_set)
qed

text \<open>
  C5. A string made of four non-empty groups of decimal digits separated by dots is
  classified as an IP literal by \<open>looksLikeIP\<close>. The function has the query as its only
  argument, so no declared type can change its answer.
\<close>

theorem looksLikeIP_dotted_quad:
  assumes "g1 \<noteq> []" "g2 \<noteq> []" "g3 \<noteq> []" "g4 \<noteq> []"
    and "\<forall>c \<in> set (g1 @ g2 @ g3 @ g4). is_digit c"
  shows "looksLikeIP (g1 @ js ''.'' @ g2 @ js ''.'' @ g3 @ js ''.'' @ g4)"
proof -
  have d: "\<forall>c \<in> set g1. is_digit c" "\<forall>c \<in> set g2. is_digit c"
    "\<forall>c \<in> set g3. is_digit c" "\<forall>c \<in> set g4. is_digit c"
    using assms(5) by auto
  have "test False ip_re (g1 @ cc CHR ''.'' # g2 @ cc CHR ''.'' # g3 @ cc CHR ''.'' # g4 @ [])"
    unfolding test_def by (rule exec_from_hit[OF ip_re_matches_quad[OF assms(1-4) d]])
  then show ?thesis by (simp add: looksLikeIP_def js_def cc_def)
qed

theorem looksLikeIP_dotted_quad_witness:
  "js ''192'' \<noteq> [] \<and> js ''168'' \<noteq> [] \<and> js ''0'' \<noteq> [] \<and> js ''1'' \<noteq> []
   \<and> list_all is_digit (js ''192'' @ js ''168'' @ js ''0'' @ js ''1'')
   \<and> looksLikeIP (js ''192.168.0.1'')"
proof -
  have n: "js ''192'' \<noteq> []" "js ''168'' \<noteq> []" "js ''0'' \<noteq> []" "js ''1'' \<noteq> []"
    by (simp_all add: js_def)
  have d: "\<forall>c \<in> set (js ''192'' @ js ''168'' @ js ''0'' @ js ''1''). is_digit c"
    by (simp add: js_def is_digit_def)
  have "looksLikeIP (js ''192'' @ js ''.'' @ js ''168'' @ js ''.'' @ js ''0'' @ js ''.'' @ js ''1'')"
    by (rule looksLikeIP_dotted_quad[OF n d])
  then have "looksLikeIP (js ''192.168.0.1'')" by (simp add: js_def)
  then show ?thesis using n d by (simp add: list_all_iff)
qed

text \<open>
  C6. A string that contains a colon is classified as an IP literal, whatever else it
  contains: a host name with a port is.
\<close>

theorem looksLikeIP_colon: "cc CHR '':'' \<in> set q \<Longrightarrow> looksLikeIP q"
  by (simp add: looksLikeIP_def js_def cc_def js_includes_single)

lemma host_with_port_not_quad: "\<not> test False ip_re (js ''example.com:80'')"
  by (simp add: test_def ip_re_unfold digit_re_def in_set_def js_def cc_def canon_def)

theorem looksLikeIP_colon_witness:
  "cc CHR '':'' \<in> set (js ''example.com:80'') \<and> looksLikeIP (js ''example.com:80'')"
proof -
  have c: "cc CHR '':'' \<in> set (js ''example.com:80'')" by (simp add: js_def cc_def)
  show ?thesis using c looksLikeIP_colon[OF c] by simp
qed

section \<open>The source adapters\<close>

lemma assign_or_empty_eq: "assign_or_empty out k c = out(k \<mapsto> records_or_empty c)"
  by (cases c) (simp_all add: assign_or_empty_def records_or_empty_def await_def catch_empty_def)

text \<open>
  C2. For every resolver and every name, \<open>dnsRecords\<close> returns (it never throws) a
  mapping whose keys are exactly A, AAAA, MX, TXT, NS and CNAME; each key holds the
  records of its own resolution, or the empty list when that resolution threw or
  rejected, whatever the other five did.
\<close>

theorem dnsRecords_complete:
  "\<exists>out. dnsRecords dns name = Inr out
     \<and> dom out = {''A'', ''AAAA'', ''MX'', ''TXT'', ''NS'', ''CNAME''}
     \<and> out ''A'' = Some (records_or_empty (resolve dns name ''A''))
     \<and> out ''AAAA'' = Some (records_or_empty (resolve dns name ''AAAA''))
     \<and> out ''MX'' = Some (records_or_empty (resolveMx dns name))
     \<and> out ''TXT'' = Some (records_or_empty (resolveTxt dns name))
     \<and> out ''NS'' = Some (records_or_empty (resolveNs dns name))
     \<and> out ''CNAME'' = Some (records_or_empty (resolveCname dns name))"
  unfolding dnsRecords_def Let_def assign_or_empty_eq by auto

lemma dnsRecords_no_mx:
  "dnsRecords no_mx (js ''example.com'') =
     Inr [''A'' \<mapsto> [js ''93.184.216.34''], ''AAAA'' \<mapsto> [js ''93.184.216.34''], ''MX'' \<mapsto> [],
          ''TXT'' \<mapsto> [], ''NS'' \<mapsto> [js ''a.iana-servers.net''], ''CNAME'' \<mapsto> []]"
  by (simp add: dnsRecords_def assign_or_empty_eq records_or_empty_def no_mx_def)

lemma safeEncode_example_com: "safeEncode (js ''example.com'') = Inr (js ''example.com'')"
  by (simp add: safeEncode_def js_def uriUnreserved_def andThen_def)

lemma safeEncode_quad: "safeEncode (js ''8.8.8.8'') = Inr (js ''8.8.8.8'')"
  by (simp add: safeEncode_def js_def uriUnreserved_def andThen_def)

lemma safeEncode_lone_surrogate: "safeEncode [0xD800] = Inl URIError"
  by (simp add: safeEncode_def uriUnreserved_def is_lead_def)

text \<open>
  C3. \<open>rdapLookup\<close> never throws. It returns the parsed JSON body when the request is
  answered with a status from 200 to 299 and the body parses; it returns \<open>null\<close> when the
  status is any other, when the body does not parse, when the request fails, and when
  the name cannot be encoded.
\<close>

theorem rdapLookup_result:
  "(safeEncode name = Inr a \<and> fetch (rdap_url kind a) user_agent = Inr res \<and> ok res
      \<and> res_json res = Inr v \<longrightarrow> rdapLookup fetch kind name = Inr v)
   \<and> (safeEncode name = Inr a \<and> fetch (rdap_url kind a) user_agent = Inr res \<and> \<not> ok res
      \<longrightarrow> rdapLookup fetch kind name = Inr JNull)
   \<and> (safeEncode name = Inr a \<and> fetch (rdap_url kind a) user_agent = Inr res
      \<and> res_json res = Inl e \<longrightarrow> rdapLookup fetch kind name = Inr JNull)
   \<and> (safeEncode name = Inr a \<and> fetch (rdap_url kind a) user_agent = Inl e
      \<longrightarrow> rdapLookup fetch kind name = Inr JNull)
   \<and> (safeEncode name = Inl e \<longrightarrow> rdapLookup fetch kind name = Inr JNull)
   \<and> (\<exists>r. rdapLookup fetch kind name = Inr r)"
  by (auto simp: rdapLookup_def try_catch_def andThen_def split: sum.splits)

theorem rdapLookup_result_witness:
  "rdapLookup (respond 200 (Inr []) (Inr (JObj [(js ''handle'', JNum (1::int))])))
       (js ''domain'') (js ''example.com'') = Inr (JObj [(js ''handle'', JNum 1)])
   \<and> rdapLookup (respond 404 (Inr []) (Inr (JObj [(js ''errorCode'', JNum (404::int))])))
       (js ''domain'') (js ''example.com'') = Inr JNull
   \<and> rdapLookup (respond 200 (Inr []) (Inl bad_json :: js_error + int json))
       (js ''domain'') (js ''example.com'') = Inr JNull
   \<and> rdapLookup (unreachable :: int fetch) (js ''ip'') (js ''8.8.8.8'') = Inr JNull
   \<and> rdapLookup (unreachable :: int fetch) (js ''ip'') [0xD800] = Inr JNull"
proof -
  have 1: "rdapLookup (respond 200 (Inr []) (Inr (JObj [(js ''handle'', JNum (1::int))])))
       (js ''domain'') (js ''example.com'') = Inr (JObj [(js ''handle'', JNum 1)])"
    using rdapLookup_result[where name = "js ''example.com''" and a = "js ''example.com''"
        and kind = "js ''domain''" and v = "JObj [(js ''handle'', JNum (1::int))]"
        and fetch = "respond 200 (Inr []) (Inr (JObj [(js ''handle'', JNum (1::int))]))"
        and res = "\<lparr>status = 200, res_text = Inr [],
                     res_json = Inr (JObj [(js ''handle'', JNum (1::int))])\<rparr>"]
    by (simp add: safeEncode_example_com respond_def ok_def)
  have 2: "rdapLookup (respond 404 (Inr []) (Inr (JObj [(js ''errorCode'', JNum (404::int))])))
       (js ''domain'') (js ''example.com'') = Inr JNull"
    using rdapLookup_result[where name = "js ''example.com''" and a = "js ''example.com''"
        and kind = "js ''domain''"
        and fetch = "respond 404 (Inr []) (Inr (JObj [(js ''errorCode'', JNum (404::int))]))"
        and res = "\<lparr>status = 404, res_text = Inr [],
                     res_json = Inr (JObj [(js ''errorCode'', JNum (404::int))])\<rparr>"]
    by (simp add: safeEncode_example_com respond_def ok_def)
  have 3: "rdapLookup (respond 200 (Inr []) (Inl bad_json :: js_error + int json))
       (js ''domain'') (js ''example.com'') = Inr JNull"
    using rdapLookup_result[where name = "js ''example.com''" and a = "js ''example.com''"
        and kind = "js ''domain''" and e = bad_json
        and fetch = "respond 200 (Inr []) (Inl bad_json :: js_error + int json)"
        and res = "\<lparr>status = 200, res_text = Inr [], res_json = Inl bad_json\<rparr>"]
    by (simp add: safeEncode_example_com respond_def ok_def)
  have 4: "rdapLookup (unreachable :: int fetch) (js ''ip'') (js ''8.8.8.8'') = Inr JNull"
    using rdapLookup_result[where name = "js ''8.8.8.8''" and a = "js ''8.8.8.8''"
        and kind = "js ''ip''" and e = fetch_failed and fetch = "unreachable :: int fetch"]
    by (simp add: safeEncode_quad unreachable_def)
  have 5: "rdapLookup (unreachable :: int fetch) (js ''ip'') [0xD800] = Inr JNull"
    using rdapLookup_result[where name = "[0xD800]" and e = URIError
        and fetch = "unreachable :: int fetch"]
    by (simp add: safeEncode_lone_surrogate)
  show ?thesis using 1 2 3 4 5 by simp
qed

text \<open>
  C4. \<open>ipGeolocation\<close> never throws. It returns the upstream JSON value as it was parsed
  when the request and the parsing succeed (whatever the status), and the record
  \<open>{status: "fail", message: e.message}\<close> when the request fails, when the body does not
  parse, and when the address cannot be encoded.
\<close>

theorem ipGeolocation_result:
  "(safeEncode ip = Inr a \<and> fetch (geo_url a) [] = Inr res \<and> res_json res = Inr v
      \<longrightarrow> ipGeolocation fetch ip = Inr v)
   \<and> (safeEncode ip = Inr a \<and> fetch (geo_url a) [] = Inr res \<and> res_json res = Inl e
      \<longrightarrow> ipGeolocation fetch ip
           = Inr (JObj [(js ''status'', JStr (js ''fail'')), (js ''message'', JStr (message e))]))
   \<and> (safeEncode ip = Inr a \<and> fetch (geo_url a) [] = Inl e
      \<longrightarrow> ipGeolocation fetch ip
           = Inr (JObj [(js ''status'', JStr (js ''fail'')), (js ''message'', JStr (message e))]))
   \<and> (safeEncode ip = Inl e
      \<longrightarrow> ipGeolocation fetch ip
           = Inr (JObj [(js ''status'', JStr (js ''fail'')), (js ''message'', JStr (message e))]))
   \<and> (\<exists>r. ipGeolocation fetch ip = Inr r)"
  by (auto simp: ipGeolocation_def fetchJson_def geo_fail_def try_catch_def andThen_def
           split: sum.splits)

theorem ipGeolocation_result_witness:
  "ipGeolocation (respond 200 (Inr []) (Inr (JObj [(js ''status'', JStr (js ''success''))])
                    :: js_error + int json)) (js ''8.8.8.8'')
     = Inr (JObj [(js ''status'', JStr (js ''success''))])
   \<and> ipGeolocation (respond 200 (Inr []) (Inl bad_json :: js_error + int json)) (js ''8.8.8.8'')
     = Inr (JObj [(js ''status'', JStr (js ''fail'')),
                  (js ''message'', JStr (js ''Unexpected end of JSON input''))])
   \<and> ipGeolocation (unreachable :: int fetch) (js ''8.8.8.8'')
     = Inr (JObj [(js ''status'', JStr (js ''fail'')), (js ''message'', JStr (js ''fetch failed''))])
   \<and> ipGeolocation (unreachable :: int fetch) [0xD800]
     = Inr (JObj [(js ''status'', JStr (js ''fail'')), (js ''message'', JStr (js ''URI malformed''))])"
proof -
  have 1: "ipGeolocation (respond 200 (Inr []) (Inr (JObj [(js ''status'', JStr (js ''success''))])
                    :: js_error + int json)) (js ''8.8.8.8'')
     = Inr (JObj [(js ''status'', JStr (js ''success''))])"
    using ipGeolocation_result[where ip = "js ''8.8.8.8''" and a = "js ''8.8.8.8''"
        and v = "JObj [(js ''status'', JStr (js ''success''))] :: int json"
        and fetch = "respond 200 (Inr []) (Inr (JObj [(js ''status'', JStr (js ''success''))]))"
        and res = "\<lparr>status = 200, res_text = Inr [],
                     res_json = Inr (JObj [(js ''status'', JStr (js ''success''))])\<rparr>"]
    by (simp add: safeEncode_quad respond_def)
  have 2: "ipGeolocation (respond 200 (Inr []) (Inl bad_json :: js_error + int json)) (js ''8.8.8.8'')
     = Inr (JObj [(js ''status'', JStr (js ''fail'')),
                  (js ''message'', JStr (js ''Unexpected end of JSON input''))])"
    using ipGeolocation_result[where ip = "js ''8.8.8.8''" and a = "js ''8.8.8.8''"
        and e = bad_json and fetch = "respond 200 (Inr []) (Inl bad_json :: js_error + int json)"
        and res = "\<lparr>status = 200, res_text = Inr [], res_json = Inl bad_json\<rparr>"]
    by (simp add: safeEncode_quad respond_def bad_json_def)
  have 3: "ipGeolocation (unreachable :: int fetch) (js ''8.8.8.8'')
     = Inr (JObj [(js ''status'', JStr (js ''fail'')), (js ''message'', JStr (js ''fetch failed''))])"
    using ipGeolocation_result[where ip = "js ''8.8.8.8''" and a = "js ''8.8.8.8''"
        and e = fetch_failed and fetch = "unreachable :: int fetch"]
    by (simp add: safeEncode_quad unreachable_def fetch_failed_def)
  have 4: "ipGeolocation (unreachable :: int fetch) [0xD800]
     = Inr (JObj [(js ''status'', JStr (js ''fail'')), (js ''message'', JStr (js ''URI malformed''))])"
    using ipGeolocation_result[where ip = "[0xD800]" and e = URIError
        and fetch = "unreachable :: int fetch"]
    by (simp add: safeEncode_lone_surrogate URIError_def)
  show ?thesis using 1 2 3 4 by simp
qed

section \<open>The normalizer\<close>

lemma replace_all_from_Set:
  "replace_all_from ic (Set neg its) [] k s = filter (\<lambda>x. \<not> in_set ic neg its x) s"
  by (induction s arbitrary: k) (auto simp: remaining_def)

lemma replace_all_Set: "replace_all ic (Set neg its) s [] = filter (\<lambda>x. \<not> in_set ic neg its x) s"
  by (simp add: replace_all_def replace_all_from_Set)

lemma keep_digit_plus:
  "replace_all False non_digit_plus_re s [] = filter (\<lambda>x. is_digit x \<or> x = cc CHR ''+'') s"
  by (simp add: non_digit_plus_re_def replace_all_Set in_set_def canon_def)

lemma keep_digit: "replace_all False non_digit_re s [] = filter is_digit s"
  by (simp add: non_digit_re_def replace_all_Set in_set_def)

lemma replace_first_from_Bol:
  "0 < k \<Longrightarrow> replace_first_from ic (Seq Bol r) repl k s = s"
  by (induction s arbitrary: k) auto

lemma ms_Grp_Chr:
  "ms ic (Grp n (Chr c)) (k, x # xs, cs) =
     (if canon ic x = canon ic c then [(Suc k, xs, (n, [x]) # cs)] else [])"
  by (simp add: ms.simps)

lemma ms_Grp_Chr_Nil: "ms ic (Grp n (Chr c)) (k, [], cs) = []"
  by (simp add: ms.simps)

lemma ms_Star_Grp_Chr:
  "\<exists>m rest. ms ic (Star (Grp n (Chr c))) (k, s, cs) = m # rest
      \<and> fst (snd m) = dropWhile (\<lambda>x. canon ic x = canon ic c) s"
proof (induction s arbitrary: k cs)
  case Nil
  show ?case by (subst ms.simps(10)) (simp add: ms_Grp_Chr_Nil)
next
  case (Cons x xs)
  show ?case
  proof (cases "canon ic x = canon ic c")
    case True
    obtain m rest where m: "ms ic (Star (Grp n (Chr c))) (Suc k, xs, (n, [x]) # cs) = m # rest"
      "fst (snd m) = dropWhile (\<lambda>x. canon ic x = canon ic c) xs"
      using Cons.IH by blast
    show ?thesis using True m
      by (subst ms.simps(10)) (simp add: ms_Grp_Chr remaining_def)
  next
    case False
    then show ?thesis by (subst ms.simps(10)) (simp add: ms_Grp_Chr)
  qed
qed

lemma lead_plus_re_unfold:
  "lead_plus_re = Seq Bol (Seq (Grp 1 (Chr (cc CHR ''+''))) (Star (Grp 1 (Chr (cc CHR ''+'')))))"
  by (simp add: lead_plus_re_def lit_def)

lemma collapse_plus:
  "replace_first False lead_plus_re s (js ''+'') =
     (case s of [] \<Rightarrow> []
      | x # xs \<Rightarrow> if x = cc CHR ''+'' then cc CHR ''+'' # dropWhile (\<lambda>x. x = cc CHR ''+'') xs else x # xs)"
proof (cases s)
  case Nil
  then show ?thesis by (simp add: replace_first_def lead_plus_re_unfold ms_Grp_Chr_Nil)
next
  case (Cons x xs)
  show ?thesis
  proof (cases "x = cc CHR ''+''")
    case True
    obtain m rest where m: "ms False (Star (Grp 1 (Chr (cc CHR ''+'')))) (Suc 0, xs, [(1, [x])]) = m # rest"
      "fst (snd m) = dropWhile (\<lambda>x. canon False x = canon False (cc CHR ''+'')) xs"
      using ms_Star_Grp_Chr by blast
    then show ?thesis using Cons True
      by (simp add: replace_first_def lead_plus_re_unfold ms_Grp_Chr canon_def js_def cc_def)
  next
    case False
    then show ?thesis using Cons
      by (simp add: replace_first_def lead_plus_re_unfold ms_Grp_Chr canon_def replace_first_from_Bol)
  qed
qed


lemma dropWhile_none: "\<forall>c \<in> set t. \<not> P c \<Longrightarrow> dropWhile P t = t"
  by (cases t) auto

lemma trim_id:
  assumes "\<forall>c \<in> set s. \<not> is_space c"
  shows "trim s = s"
proof -
  have "\<forall>c \<in> set (rev s). \<not> is_space c" using assms by simp
  then have "dropWhile is_space (rev s) = rev s" by (rule dropWhile_none)
  moreover have "dropWhile is_space s = s" using assms by (rule dropWhile_none)
  ultimately show ?thesis by (simp add: trim_def)
qed

lemma digit_not_space: "is_digit c \<Longrightarrow> \<not> is_space c"
  unfolding is_digit_def is_space_def
  by (auto simp: word_le_def)

lemma plus_not_space: "\<not> is_space (cc CHR ''+'')"
  by (simp add: is_space_def cc_def)

lemma plus_not_digit: "\<not> is_digit (cc CHR ''+'')"
  by (simp add: is_digit_def cc_def)

lemma zero_is_digit: "is_digit (cc CHR ''0'')"
  by (simp add: is_digit_def cc_def)

lemma startsWith_plus: "startsWith s (js ''+'') = (case s of [] \<Rightarrow> False | x # xs \<Rightarrow> x = cc CHR ''+'')"
  by (cases s) (auto simp: startsWith_def js_def cc_def)

lemma startsWith_00:
  "startsWith s (js ''00'') = (\<exists>t. s = cc CHR ''0'' # cc CHR ''0'' # t)"
  by (cases s; cases "tl s") (auto simp: startsWith_def js_def cc_def)

lemma dropWhile_plus_digits:
  "\<forall>c \<in> set d. is_digit c \<Longrightarrow> dropWhile (\<lambda>x. x = cc CHR ''+'') d = d"
  using plus_not_digit by (cases d) auto

lemma normalizePhone_unfold:
  assumes "r \<noteq> []"
  shows "\<exists>s. normalizePhone r =
           Some \<lparr>raw = r, cleaned = s, digits = filter is_digit s,
                 e164 = (if startsWith s (js ''+'') then js ''+'' @ filter is_digit s
                         else filter is_digit s)\<rparr>"
  using assms by (simp add: normalizePhone_def Let_def keep_digit)

lemma normalizePhone_fixed:
  assumes d: "\<forall>c \<in> set d. is_digit c" and e: "e = d \<or> e = cc CHR ''+'' # d"
    and ne: "e \<noteq> []" and z: "\<not> startsWith e (js ''00'')"
  shows "normalizePhone e = Some \<lparr>raw = e, cleaned = e, digits = d, e164 = e\<rparr>"
proof -
  have all: "\<forall>c \<in> set e. is_digit c \<or> c = cc CHR ''+''" using d e by auto
  then have "\<forall>c \<in> set e. \<not> is_space c" using digit_not_space plus_not_space by auto
  then have t: "trim e = e" by (rule trim_id)
  have k: "filter (\<lambda>x. is_digit x \<or> x = cc CHR ''+'') e = e" using all by simp
  have c: "replace_first False lead_plus_re e (js ''+'') = e"
    using e d ne plus_not_digit
    by (cases e) (auto simp: collapse_plus dropWhile_plus_digits)
  have f: "filter is_digit e = d" using e d plus_not_digit by auto
  have p: "startsWith e (js ''+'') \<longleftrightarrow> e = cc CHR ''+'' # d"
    using e d ne plus_not_digit by (cases e) (auto simp: startsWith_plus)
  have j: "js ''+'' @ d = cc CHR ''+'' # d" by (simp add: js_def cc_def)
  have "normalizePhone e =
          Some \<lparr>raw = e, cleaned = e, digits = d,
                e164 = (if e = cc CHR ''+'' # d then cc CHR ''+'' # d else d)\<rparr>"
    unfolding normalizePhone_def Let_def
    by (simp only: ne if_False t keep_digit_plus k c z keep_digit f p j)
  then show ?thesis using e by auto
qed

lemma normalizePhone_example:
  "normalizePhone (js ''+1 (555) 123-4567'') =
     Some \<lparr>raw = js ''+1 (555) 123-4567'', cleaned = js ''+15551234567'',
           digits = js ''15551234567'', e164 = js ''+15551234567''\<rparr>"
  by code_simp

lemma normalizePhone_example_00:
  "normalizePhone (js ''0044123456789'') =
     Some \<lparr>raw = js ''0044123456789'', cleaned = js ''+44123456789'',
           digits = js ''44123456789'', e164 = js ''+44123456789''\<rparr>"
  by code_simp

lemma normalizePhone_example_local:
  "normalizePhone (js ''(555) 123'') =
     Some \<lparr>raw = js ''(555) 123'', cleaned = js ''555123'', digits = js ''555123'',
           e164 = js ''555123''\<rparr>"
  by code_simp

text \<open>
  C7, as the program has it. For every non-empty raw input the digits-only string is the
  cleaned string without its non-digits, and the e164-like string is \<open>"+"\<close> followed by
  the digits when the cleaned string begins with \<open>"+"\<close>, and the digits alone otherwise.
  A \<open>"+"\<close> that is in the cleaned string but not at its head does not count.
\<close>

theorem normalizePhone_e164:
  assumes "r \<noteq> []"
  shows "\<exists>n. normalizePhone r = Some n \<and> digits n = filter is_digit (cleaned n)
           \<and> e164 n = (if startsWith (cleaned n) (js ''+'') then js ''+'' @ digits n else digits n)"
  using normalizePhone_unfold[OF assms] by auto

theorem normalizePhone_e164_witness:
  "js ''+1 (555) 123-4567'' \<noteq> []
   \<and> (\<exists>n. normalizePhone (js ''+1 (555) 123-4567'') = Some n
          \<and> cleaned n = js ''+15551234567'' \<and> digits n = js ''15551234567''
          \<and> e164 n = js ''+'' @ js ''15551234567'')"
proof -
  have ne: "js ''+1 (555) 123-4567'' \<noteq> []" by (simp add: js_def)
  obtain n where n: "normalizePhone (js ''+1 (555) 123-4567'') = Some n"
    "digits n = filter is_digit (cleaned n)"
    "e164 n = (if startsWith (cleaned n) (js ''+'') then js ''+'' @ digits n else digits n)"
    using normalizePhone_e164[OF ne] by blast
  have c: "cleaned n = js ''+15551234567''" using n(1) by (auto simp: normalizePhone_example)
  have s: "startsWith (js ''+15551234567'') (js ''+'')" by code_simp
  have d: "filter is_digit (js ''+15551234567'') = js ''15551234567''" by code_simp
  show ?thesis using ne n c s d by simp
qed

text \<open>
  The claim as the specification words it fails: the cleaned form of \<open>"1+2"\<close> contains a
  \<open>"+"\<close>, and its e164-like form is \<open>"12"\<close>, not \<open>"+12"\<close>.
\<close>

theorem normalizePhone_plus_inside_counterexample:
  "normalizePhone (js ''1+2'') =
     Some \<lparr>raw = js ''1+2'', cleaned = js ''1+2'', digits = js ''12'', e164 = js ''12''\<rparr>
   \<and> cc CHR ''+'' \<in> set (js ''1+2'') \<and> js ''12'' \<noteq> js ''+'' @ js ''12''"
  by code_simp

text \<open>
  C8, as the program has it. When the e164-like form of a first application is not empty
  and does not begin with \<open>"00"\<close>, normalizing it again returns it unchanged: it is its
  own cleaned form and its own e164-like form, with the same digits.
\<close>

theorem normalizePhone_idempotent:
  assumes "normalizePhone r = Some n" and "e164 n \<noteq> []" and "\<not> startsWith (e164 n) (js ''00'')"
  shows "normalizePhone (e164 n) =
           Some \<lparr>raw = e164 n, cleaned = e164 n, digits = digits n, e164 = e164 n\<rparr>"
proof -
  have r: "r \<noteq> []" using assms(1) by (auto simp: normalizePhone_def)
  obtain s where "normalizePhone r =
           Some \<lparr>raw = r, cleaned = s, digits = filter is_digit s,
                 e164 = (if startsWith s (js ''+'') then js ''+'' @ filter is_digit s
                         else filter is_digit s)\<rparr>"
    using normalizePhone_unfold[OF r] by blast
  then have n: "digits n = filter is_digit s"
    "e164 n = (if startsWith s (js ''+'') then js ''+'' @ filter is_digit s else filter is_digit s)"
    using assms(1) by auto
  have d: "\<forall>c \<in> set (digits n). is_digit c" using n(1) by simp
  have e: "e164 n = digits n \<or> e164 n = cc CHR ''+'' # digits n"
    using n by (auto simp: js_def cc_def)
  show ?thesis by (rule normalizePhone_fixed[OF d e assms(2,3)])
qed

theorem normalizePhone_idempotent_witness:
  "normalizePhone (js ''+1 (555) 123-4567'') =
     Some \<lparr>raw = js ''+1 (555) 123-4567'', cleaned = js ''+15551234567'',
           digits = js ''15551234567'', e164 = js ''+15551234567''\<rparr>
   \<and> js ''+15551234567'' \<noteq> [] \<and> \<not> startsWith (js ''+15551234567'') (js ''00'')
   \<and> normalizePhone (js ''+15551234567'') =
     Some \<lparr>raw = js ''+15551234567'', cleaned = js ''+15551234567'',
           digits = js ''15551234567'', e164 = js ''+15551234567''\<rparr>"
proof -
  have ne: "js ''+15551234567'' \<noteq> []" by (simp add: js_def)
  have z: "\<not> startsWith (js ''+15551234567'') (js ''00'')" by code_simp
  show ?thesis
    using normalizePhone_idempotent[OF normalizePhone_example] ne z normalizePhone_example
    by simp
qed

text \<open>Both conditions are needed.\<close>

lemma normalizePhone_empty_e164: "e164 n = [] \<Longrightarrow> normalizePhone (e164 n) = None"
  by (simp add: normalizePhone_def)

lemma normalizePhone_double_zero:
  assumes "normalizePhone r = Some n" and "startsWith (e164 n) (js ''00'')"
  shows "\<exists>n'. normalizePhone (e164 n) = Some n' \<and> e164 n' = js ''+'' @ drop 2 (e164 n)
           \<and> e164 n' \<noteq> e164 n"
proof -
  have r: "r \<noteq> []" using assms(1) by (auto simp: normalizePhone_def)
  obtain s where "normalizePhone r =
           Some \<lparr>raw = r, cleaned = s, digits = filter is_digit s,
                 e164 = (if startsWith s (js ''+'') then js ''+'' @ filter is_digit s
                         else filter is_digit s)\<rparr>"
    using normalizePhone_unfold[OF r] by blast
  then have n: "e164 n = (if startsWith s (js ''+'') then js ''+'' @ filter is_digit s
                          else filter is_digit s)"
    using assms(1) by auto
  obtain t where t: "e164 n = cc CHR ''0'' # cc CHR ''0'' # t"
    using assms(2) by (auto simp: startsWith_00)
  have p: "cc CHR ''0'' \<noteq> cc CHR ''+''" by (simp add: cc_def)
  have e: "e164 n = filter is_digit s"
    using n t p by (auto simp: js_def cc_def split: if_splits)
  have d: "\<forall>c \<in> set (e164 n). is_digit c" by (simp add: e)
  let ?e = "e164 n"
  have "\<forall>c \<in> set ?e. \<not> is_space c" using d digit_not_space by blast
  then have tr: "trim ?e = ?e" by (rule trim_id)
  have k: "filter (\<lambda>x. is_digit x \<or> x = cc CHR ''+'') ?e = ?e" using d by simp
  have c: "replace_first False lead_plus_re ?e (js ''+'') = ?e"
    using t p by (simp add: collapse_plus)
  have ne: "?e \<noteq> []" using t by simp
  have f: "filter is_digit (js ''+'' @ drop 2 ?e) = drop 2 ?e"
    using d t plus_not_digit by (auto simp: js_def cc_def)
  have sp: "startsWith (js ''+'' @ drop 2 ?e) (js ''+'')" by (simp add: startsWith_def js_def)
  have "normalizePhone ?e =
          Some \<lparr>raw = ?e, cleaned = js ''+'' @ drop 2 ?e, digits = drop 2 ?e,
                e164 = js ''+'' @ drop 2 ?e\<rparr>"
    unfolding normalizePhone_def Let_def
    by (simp only: ne if_False tr keep_digit_plus k c assms(2) if_True keep_digit f sp)
  moreover have "js ''+'' @ drop 2 ?e \<noteq> ?e" using t p by (simp add: js_def cc_def)
  ultimately show ?thesis by simp
qed

text \<open>
  The claim as the specification words it fails twice. The e164-like form of \<open>"0+0"\<close> is
  \<open>"00"\<close>, which normalizes to \<open>"+"\<close>; the e164-like form of \<open>"abc"\<close> is the empty
  string, for which the normalizer returns \<open>null\<close>.
\<close>

theorem normalizePhone_idempotent_counterexample:
  "normalizePhone (js ''0+0'') =
     Some \<lparr>raw = js ''0+0'', cleaned = js ''0+0'', digits = js ''00'', e164 = js ''00''\<rparr>
   \<and> normalizePhone (js ''00'') =
     Some \<lparr>raw = js ''00'', cleaned = js ''+'', digits = [], e164 = js ''+''\<rparr>
   \<and> js ''+'' \<noteq> js ''00''
   \<and> normalizePhone (js ''abc'') = Some \<lparr>raw = js ''abc'', cleaned = [], digits = [], e164 = []\<rparr>
   \<and> normalizePhone [] = None"
  by code_simp

section \<open>The scraper\<close>

subsection \<open>Captures\<close>

lemma one_caps: "st' \<in> set (one p st) \<Longrightarrow> snd (snd st') = snd (snd st)"
  by (cases "(p, st)" rule: one.cases) (auto split: if_splits)

lemma ms_Star_mem:
  "st' \<in> set (ms ic (Star r) st) \<longleftrightarrow>
     st' = st \<or> (\<exists>x \<in> set (ms ic r st). remaining x < remaining st \<and> st' \<in> set (ms ic (Star r) x))"
  by (subst ms.simps(10)) (auto split: if_splits)

lemma ms_LazyStar_mem:
  "st' \<in> set (ms ic (LazyStar r) st) \<longleftrightarrow>
     st' = st \<or> (\<exists>x \<in> set (ms ic r st). remaining x < remaining st \<and> st' \<in> set (ms ic (LazyStar r) x))"
  by (subst ms.simps(11)) (auto split: if_splits)

lemma ms_caps_mono:
  "st' \<in> set (ms ic r st) \<Longrightarrow> set (snd (snd st)) \<subseteq> set (snd (snd st'))"
proof (induction ic r st arbitrary: st' rule: ms.induct)
  case (10 ic r st)
  from "10.prems" ms_Star_mem[of st' ic r st]
  consider "st' = st"
    | x where "x \<in> set (ms ic r st)" "remaining x < remaining st" "st' \<in> set (ms ic (Star r) x)"
    by blast
  then show ?case
  proof cases
    case 1
    then show ?thesis by simp
  next
    case 2
    then show ?thesis using "10.IH"(1)[of x] "10.IH"(2)[of x st'] by blast
  qed
next
  case (11 ic r st)
  from "11.prems" ms_LazyStar_mem[of st' ic r st]
  consider "st' = st"
    | x where "x \<in> set (ms ic r st)" "remaining x < remaining st" "st' \<in> set (ms ic (LazyStar r) x)"
    by blast
  then show ?case
  proof cases
    case 1
    then show ?thesis by simp
  next
    case 2
    then show ?thesis using "11.IH"(1)[of x] "11.IH"(2)[of x st'] by blast
  qed
qed (auto dest: one_caps split: if_splits, blast+)

lemma ms_binds:
  "binds n r \<Longrightarrow> st' \<in> set (ms ic r st) \<Longrightarrow> n \<in> fst ` set (snd (snd st'))"
proof (induction r arbitrary: st st')
  case (Seq r1 r2)
  from Seq.prems(2) obtain x where x: "x \<in> set (ms ic r1 st)" "st' \<in> set (ms ic r2 x)" by auto
  show ?case
  proof (cases "binds n r1")
    case True
    then have "n \<in> fst ` set (snd (snd x))" using Seq.IH(1) x(1) by blast
    then show ?thesis using ms_caps_mono[OF x(2)] by auto
  next
    case False
    then have "binds n r2" using Seq.prems(1) by simp
    then show ?thesis using Seq.IH(2) x(2) by blast
  qed
next
  case (Alt r1 r2)
  have b: "binds n r1" "binds n r2" using Alt.prems(1) by simp_all
  have "st' \<in> set (ms ic r1 st) \<or> st' \<in> set (ms ic r2 st)" using Alt.prems(2) by simp
  then show ?case using Alt.IH(1)[OF b(1)] Alt.IH(2)[OF b(2)] by blast
next
  case (Grp m r)
  from Grp.prems(2) obtain x where x: "x \<in> set (ms ic r st)"
    and c: "snd (snd st') = (m, take (fst x - fst st) (fst (snd st))) # snd (snd x)"
    by auto
  show ?case
  proof (cases "n = m")
    case True
    then show ?thesis using c by simp
  next
    case False
    then have "binds n r" using Grp.prems(1) by simp
    then have "n \<in> fst ` set (snd (snd x))" using Grp.IH x by blast
    then show ?thesis using c by auto
  qed
qed simp_all

lemma exec_from_mem:
  "exec_from ic r k s = Some (j, m) \<Longrightarrow> \<exists>st. m \<in> set (ms ic r st)"
  by (induction s arbitrary: k) (auto split: list.splits, (metis list.set_intros(1))+)

lemma group_binds:
  assumes "binds n r" "js_match ic r s = Some m"
  shows "\<exists>t. group m n = Some t"
proof -
  obtain j st where m: "m = (j, st)" by (cases m)
  then obtain st0 where "st \<in> set (ms ic r st0)" using assms(2) exec_from_mem
    unfolding js_match_def by blast
  then have "n \<in> fst ` set (snd (snd st))" using ms_binds[OF assms(1)] by blast
  then have "map_of (snd (snd st)) n \<noteq> None" by (simp add: map_of_eq_None_iff)
  then show ?thesis using m by (auto simp: group_def)
qed

lemma binds_res:
  "binds 1 href_re" "binds 1 href_re_any" "binds 1 title_re" "binds 1 title_re_any"
  "binds 1 snippet_re"
  by (simp_all add: href_re_def href_re_any_def title_re_def title_re_any_def snippet_re_def lit_def)

lemma strip_group_total:
  assumes "binds 1 r" "js_match ic r s = Some m"
  shows "\<exists>t. strip_group m = Inr t"
  using group_binds[OF assms] by (auto simp: strip_group_def)

lemma first_match_binds:
  assumes "binds 1 r1" "binds 1 r2" "first_match (js_match ic r1 s) (js_match ic r2 s) = Some m"
  shows "\<exists>t. strip_group m = Inr t"
  using assms strip_group_total by (auto simp: first_match_def split: option.splits)

subsection \<open>The loop\<close>

lemma ddg_title_total: "\<exists>t. ddg_title part = Inr t"
  using first_match_binds[OF binds_res(3,4)]
  by (fastforce simp: ddg_title_def andThen_def split: option.splits sum.splits)

lemma ddg_snippet_total: "\<exists>t. ddg_snippet part = Inr t"
  using strip_group_total[OF binds_res(5)]
  by (auto simp: ddg_snippet_def split: option.splits)

lemma ddg_part_total: "\<exists>entry. ddg_part part = Inr entry"
  using ddg_title_total[of part] ddg_snippet_total[of part]
  by (auto simp: ddg_part_def Let_def andThen_def)

lemma length_ge_cap: "length_ge n m = (case cap m of Some c \<Rightarrow> c \<le> n | None \<Rightarrow> False)"
  by (cases m) (simp_all add: length_ge_def cap_def nat_le_iff ceiling_le_iff)

lemma cap_nat: "cap (Finite (real n)) = Some n"
  by (simp add: cap_def)

lemma ddg_loop_unbounded:
  "cap m = None \<Longrightarrow> ddg_loop m parts acc = Inr (acc @ entries parts)"
proof (induction parts arbitrary: acc)
  case Nil
  then show ?case by (simp add: entries_def)
next
  case (Cons part parts)
  obtain entry where e: "ddg_part part = Inr entry" using ddg_part_total by blast
  show ?case using Cons.prems e Cons.IH[OF Cons.prems]
    by (cases entry) (simp_all add: length_ge_cap andThen_def entries_def)
qed

lemma ddg_loop_take:
  "cap m = Some n \<Longrightarrow> ddg_loop m parts acc = Inr (acc @ take (n - length acc) (entries parts))"
proof (induction parts arbitrary: acc)
  case Nil
  then show ?case by (simp add: entries_def)
next
  case (Cons part parts)
  obtain entry where e: "ddg_part part = Inr entry" using ddg_part_total by blast
  show ?case
  proof (cases "n \<le> length acc")
    case True
    then show ?thesis using Cons.prems by (simp add: length_ge_cap)
  next
    case False
    then obtain k where k: "n - length acc = Suc k" by (cases "n - length acc") auto
    show ?thesis
    proof (cases entry)
      case None
      then show ?thesis using False e Cons.IH[OF Cons.prems, of acc] Cons.prems
        by (simp add: length_ge_cap andThen_def entries_def)
    next
      case (Some r)
      have "n - length (acc @ [r]) = k" using k by simp
      then show ?thesis using False e Some Cons.IH[OF Cons.prems, of "acc @ [r]"] k Cons.prems
        by (simp add: length_ge_cap andThen_def entries_def)
    qed
  qed
qed

lemma ddg_loop_capped: "ddg_loop m parts [] = Inr (capped m (entries parts))"
  by (cases "cap m") (simp_all add: capped_def ddg_loop_unbounded ddg_loop_take)

lemma duckDuckGoSearch_eq:
  "duckDuckGoSearch fetch query m =
     (case safeEncode query of
        Inl e \<Rightarrow> Inl e
      | Inr q \<Rightarrow>
          Inr (case fetchText fetch (ddg_url q) user_agent of
                 Inl e \<Rightarrow> []
               | Inr text \<Rightarrow> capped m (entries (containers text))))"
  by (simp add: duckDuckGoSearch_def andThen_def try_catch_def ddg_loop_capped containers_def
           split: sum.splits)

lemma set_capped: "set (capped m xs) \<subseteq> set xs"
  by (auto simp: capped_def split: option.splits dest: in_set_takeD)

lemma entries_mem:
  "r \<in> set (entries parts) \<Longrightarrow> \<exists>part \<in> set parts. ddg_part part = Inr (Some r)"
  by (auto simp: entries_def split: sum.splits option.splits)

lemma ddg_part_Some:
  assumes "ddg_part part = Inr (Some r)"
  shows "\<exists>href. ddg_href part = Some href \<and> href \<noteq> [] \<and> link r = Some href
           \<and> title r = (case ddg_title part of
                          Inr (Some t) \<Rightarrow> if t = [] then Some href else Some t
                        | _ \<Rightarrow> Some href)
           \<and> ddg_snippet part = Inr (snippet r)"
proof -
  obtain t where t: "ddg_title part = Inr t" using ddg_title_total by blast
  obtain s where s: "ddg_snippet part = Inr s" using ddg_snippet_total by blast
  have p: "truthy (ddg_href part)"
    and r: "r = \<lparr>title = js_or t (ddg_href part), snippet = s, link = ddg_href part\<rparr>"
    using assms t s by (auto simp: ddg_part_def Let_def andThen_def split: if_splits)
  from p obtain href where h: "ddg_href part = Some href" "href \<noteq> []"
    by (auto simp: truthy_def split: option.splits)
  show ?thesis using h r t s
    by (cases t) (auto simp: js_or_def truthy_def)
qed

subsection \<open>Encoding the query\<close>

lemma unreserved_not_surrogate: "uriUnreserved c \<Longrightarrow> \<not> is_lead c \<and> \<not> is_trail c"
  unfolding uriUnreserved_def is_lead_def is_trail_def
  by (auto simp: word_le_nat_alt)

lemma andThen_ex: "(\<exists>a. andThen m (\<lambda>r. Inr (f r)) = Inr a) = (\<exists>r. m = Inr r)"
  by (cases m) (simp_all add: andThen_def)

lemma encode_well_formed: "(\<exists>a. encodeURIComponent q = Inr a) = well_formed q"
proof (induction q rule: well_formed.induct)
  case 1
  show ?case by simp
next
  case (2 c cs)
  show ?case
  proof (cases "is_lead c")
    case True
    then have u: "\<not> uriUnreserved c" using unreserved_not_surrogate by blast
    show ?thesis
    proof (cases cs)
      case Nil
      then show ?thesis using True u by simp
    next
      case (Cons d ds)
      then show ?thesis using True u "2.IH"(1)[OF True Cons] by (simp add: andThen_ex)
    qed
  next
    case False
    show ?thesis
    proof (cases "uriUnreserved c")
      case True
      then have "\<not> is_trail c" using unreserved_not_surrogate by blast
      then show ?thesis using True False "2.IH"(2)[OF False] by (simp add: andThen_ex)
    next
      case u: False
      then show ?thesis using False "2.IH"(2)[OF False] by (simp add: andThen_ex)
    qed
  qed
qed

text \<open>
  C1. The claim does not hold of the program. The query is encoded before the \<open>try\<close>
  block is entered, and \<open>encodeURIComponent\<close> throws on a string with a lone surrogate:
  for the query \<open>"\\uD800"\<close> the scraper throws a \<open>URIError\<close>, whatever the network
  and whatever \<open>maxResults\<close>. (\<open>rdapLookup\<close> and \<open>ipGeolocation\<close> encode inside their
  \<open>try\<close> and return their failure value on the same input.)
\<close>

theorem duckDuckGoSearch_lone_surrogate:
  "duckDuckGoSearch fetch [0xD800] maxResults = Inl URIError"
  by (simp add: duckDuckGoSearch_def safeEncode_lone_surrogate andThen_def)

text \<open>
  What does hold: for a well-formed query the scraper returns a list; it is empty when
  the fetch fails and when the page is empty.
\<close>

lemma duckDuckGoSearch_returns:
  "well_formed query \<Longrightarrow> \<exists>rs. duckDuckGoSearch fetch query n = Inr rs"
  using encode_well_formed[of query]
  by (auto simp: duckDuckGoSearch_eq safeEncode_def)

lemma duckDuckGoSearch_transport_error:
  "safeEncode query = Inr q \<Longrightarrow> fetchText fetch (ddg_url q) user_agent = Inl e \<Longrightarrow>
   duckDuckGoSearch fetch query n = Inr []"
  by (simp add: duckDuckGoSearch_eq)

lemma duckDuckGoSearch_empty_page:
  "safeEncode query = Inr q \<Longrightarrow> fetchText fetch (ddg_url q) user_agent = Inr [] \<Longrightarrow>
   duckDuckGoSearch fetch query n = Inr []"
  by (simp add: duckDuckGoSearch_eq containers_def entries_def js_def capped_def
           split: option.splits)

lemma page_entries: "entries (containers page) = [result_a, result_b, result_c]"
  by code_simp

lemma page_search:
  "duckDuckGoSearch server (js ''q'') m = Inr (capped m [result_a, result_b, result_c])"
proof -
  have "safeEncode (js ''q'') = Inr (js ''q'')"
    by (simp add: safeEncode_def js_def uriUnreserved_def andThen_def)
  moreover have "fetchText server u h = Inr page" for u h
    by (simp add: fetchText_def server_def respond_def andThen_def)
  ultimately show ?thesis by (simp add: duckDuckGoSearch_eq page_entries)
qed

lemma page_results:
  "duckDuckGoSearch server (js ''q'') (Finite (real (6::nat))) = Inr [result_a, result_b, result_c]"
  by (simp only: page_search capped_def cap_nat) simp

text \<open>
  C9, as the program has it. For a bound that is a natural number the scraper, when it
  returns, returns at most that many entries, and with a smaller such bound it returns
  the first entries of what it returns with a larger one: the loop stops at the bound
  although more containers with an anchor follow.
\<close>

theorem duckDuckGoSearch_at_most:
  assumes "duckDuckGoSearch fetch query (Finite (real m)) = Inr rs"
  shows "length rs \<le> m
    \<and> (\<forall>n \<le> m. duckDuckGoSearch fetch query (Finite (real n)) = Inr (take n rs))"
  using assms by (auto simp: duckDuckGoSearch_eq capped_def cap_nat min_def split: sum.splits)

theorem duckDuckGoSearch_at_most_witness:
  "duckDuckGoSearch server (js ''q'') (Finite (real (6::nat))) = Inr [result_a, result_b, result_c]
   \<and> length [result_a, result_b, result_c] \<le> 6
   \<and> duckDuckGoSearch server (js ''q'') (Finite (real (2::nat))) = Inr [result_a, result_b]
   \<and> duckDuckGoSearch server (js ''q'') (Finite (real (0::nat))) = Inr []"
proof -
  note t = duckDuckGoSearch_at_most[OF page_results, THEN conjunct2, rule_format]
  have "duckDuckGoSearch server (js ''q'') (Finite (real (2::nat)))
          = Inr (take 2 [result_a, result_b, result_c])"
    by (rule t) simp
  moreover have "duckDuckGoSearch server (js ''q'') (Finite (real (0::nat)))
          = Inr (take 0 [result_a, result_b, result_c])"
    by (rule t) simp
  ultimately show ?thesis using page_results by simp
qed

text \<open>
  The claim as the specification words it, for every \<open>maxResults\<close>, fails: the test of
  the loop is \<open>results.length >= maxResults\<close>, and with the bound 2.5 it is false at the
  lengths 0, 1 and 2, so that three entries are returned, more than the bound.
\<close>

theorem duckDuckGoSearch_fraction_counterexample:
  "duckDuckGoSearch server (js ''q'') (Finite (5 / 2)) = Inr [result_a, result_b, result_c]
   \<and> \<not> real (length [result_a, result_b, result_c]) \<le> 5 / 2"
  by (simp add: page_search capped_def cap_def)

text \<open>With \<open>NaN\<close> the loop never stops early; with a negative bound nothing is returned.\<close>

lemma duckDuckGoSearch_nan:
  "duckDuckGoSearch server (js ''q'') NaN = Inr [result_a, result_b, result_c]"
  by (simp add: page_search capped_def cap_def)

lemma duckDuckGoSearch_negative: "duckDuckGoSearch server (js ''q'') (Finite (- 1)) = Inr []"
  by (simp add: page_search capped_def cap_def)

text \<open>
  C10. Every entry that the scraper returns was pushed for a container in which a
  non-empty href was matched, and that href is its link; its title is the stripped title
  of the container, or the href when no title was matched or the stripped title is
  empty, so neither is \<open>null\<close> or empty; its snippet is the stripped snippet, the empty
  string when none was matched.
\<close>

theorem duckDuckGoSearch_entry:
  assumes "duckDuckGoSearch fetch query n = Inr rs" and "r \<in> set rs"
  shows "\<exists>part href. ddg_part part = Inr (Some r) \<and> ddg_href part = Some href \<and> href \<noteq> []
           \<and> link r = Some href
           \<and> title r = (case ddg_title part of
                          Inr (Some t) \<Rightarrow> if t = [] then Some href else Some t
                        | _ \<Rightarrow> Some href)
           \<and> title r \<noteq> None \<and> title r \<noteq> Some []
           \<and> ddg_snippet part = Inr (snippet r)"
proof -
  obtain q where rs: "rs = (case fetchText fetch (ddg_url q) user_agent of
                              Inl e \<Rightarrow> []
                            | Inr html \<Rightarrow> capped n (entries (containers html)))"
    using assms(1) unfolding duckDuckGoSearch_eq by (cases "safeEncode query") auto
  obtain html where "r \<in> set (capped n (entries (containers html)))"
    using assms(2) unfolding rs by (cases "fetchText fetch (ddg_url q) user_agent") auto
  then have "r \<in> set (entries (containers html))" by (rule set_capped[THEN subsetD])
  then obtain part where part: "ddg_part part = Inr (Some r)" using entries_mem by blast
  obtain href where h: "ddg_href part = Some href" "href \<noteq> []" "link r = Some href"
    "title r = (case ddg_title part of
                  Inr (Some t) \<Rightarrow> if t = [] then Some href else Some t
                | _ \<Rightarrow> Some href)"
    "ddg_snippet part = Inr (snippet r)"
    using ddg_part_Some[OF part] by blast
  have "title r \<noteq> None \<and> title r \<noteq> Some []"
    using h(2,4) by (auto split: sum.splits option.splits)
  then show ?thesis using part h by blast
qed

theorem duckDuckGoSearch_entry_witness:
  "duckDuckGoSearch server (js ''q'') (Finite 6) = Inr [result_a, result_b, result_c]
   \<and> result_c \<in> set [result_a, result_b, result_c]
   \<and> (\<exists>part. ddg_part part = Inr (Some result_c) \<and> ddg_href part = Some (js ''c'')
          \<and> ddg_snippet part = Inr [])
   \<and> link result_c = Some (js ''c'') \<and> title result_c = Some (js ''c'')"
proof -
  have m: "result_c \<in> set [result_a, result_b, result_c]" by simp
  obtain part href where p: "ddg_part part = Inr (Some result_c)" "ddg_href part = Some href"
    "link result_c = Some href" "ddg_snippet part = Inr (snippet result_c)"
    using duckDuckGoSearch_entry[OF page_results m] by blast
  have "href = js ''c''" using p(3) by (simp add: result_c_def)
  then show ?thesis using p page_results by (auto simp: result_c_def)
qed

lemma ddg_snippet_default: "js_match True snippet_re part = None \<Longrightarrow> ddg_snippet part = Inr []"
  by (simp add: ddg_snippet_def)

end
